theory Spec2Isabelle
  imports Complex_Main "HOL-Library.Multiset"
begin

section \<open>Python values\<close>

text \<open>
  The parser script builds its whole result out of Python dictionaries, lists and
  literal payloads, so the model has one type of Python objects. A float literal is
  represented by its exact value (a literal is never negative and never a NaN; a literal
  too large for a double is the infinity).
\<close>

datatype py_float = Finite rat | Infinity

datatype py_const =
    CNone
  | CBool bool
  | CInt int
  | CFloat py_float
  | CComplex py_float py_float
  | CStr string
  | CBytes string
  | CEllipsis

text \<open>
  A dictionary is an association list in insertion order. Its keys are hashable objects;
  every key this program ever stores is a literal payload, a string or \<open>None\<close>.
\<close>

datatype pyobj =
    Const py_const
  | ListObj "pyobj list"
  | DictObj "(py_const \<times> pyobj) list"

type_synonym pydict = "(py_const \<times> pyobj) list"

abbreviation PyNone :: pyobj where "PyNone \<equiv> Const CNone"
abbreviation PyStr :: "string \<Rightarrow> pyobj" where "PyStr s \<equiv> Const (CStr s)"
abbreviation PyInt :: "int \<Rightarrow> pyobj" where "PyInt i \<equiv> Const (CInt i)"
abbreviation PyBool :: "bool \<Rightarrow> pyobj" where "PyBool b \<equiv> Const (CBool b)"

text \<open>
  Exceptions, as far as \<open>parse_python_code\<close> looks at them: a \<open>SyntaxError\<close> with
  \<open>str(e)\<close>, \<open>e.lineno\<close>, \<open>e.offset\<close> and \<open>e.text\<close>, or any other
  \<open>Exception\<close> with \<open>type(e).__name__\<close> and \<open>str(e)\<close>.
\<close>

datatype exn =
    SyntaxError string "int option" "int option" "string option"
  | Exception string string

subsection \<open>Dictionary keys\<close>

text \<open>
  Python compares dictionary keys with \<open>==\<close>: \<open>True\<close>, \<open>1\<close>, \<open>1.0\<close> and
  \<open>(1+0j)\<close> are one key. \<open>num_of\<close> is the value of a number as a complex number.
\<close>

fun num_of :: "py_const \<Rightarrow> (py_float \<times> py_float) option" where
  "num_of (CBool b) = Some (Finite (if b then 1 else 0), Finite 0)"
| "num_of (CInt i) = Some (Finite (of_int i), Finite 0)"
| "num_of (CFloat x) = Some (x, Finite 0)"
| "num_of (CComplex re im) = Some (re, im)"
| "num_of _ = None"

definition key_eq :: "py_const \<Rightarrow> py_const \<Rightarrow> bool" where
  "key_eq a b =
     (case (num_of a, num_of b) of
        (Some x, Some y) \<Rightarrow> x = y
      | (None, None) \<Rightarrow> a = b
      | _ \<Rightarrow> False)"

text \<open>\<open>d[k] = v\<close>: an existing key keeps its place (and its first spelling), a new one goes last.\<close>

fun dict_set :: "pydict \<Rightarrow> py_const \<Rightarrow> pyobj \<Rightarrow> pydict" where
  "dict_set [] k v = [(k, v)]"
| "dict_set ((k', v') # d) k v =
     (if key_eq k' k then (k', v) # d else (k', v') # dict_set d k v)"

text \<open>\<open>d.get(k)\<close>.\<close>

fun dict_get :: "pydict \<Rightarrow> py_const \<Rightarrow> pyobj option" where
  "dict_get [] k = None"
| "dict_get ((k', v') # d) k = (if key_eq k' k then Some v' else dict_get d k)"

text \<open>\<open>obj[k]\<close> for a string key \<open>k\<close>.\<close>

fun getitem :: "pyobj \<Rightarrow> string \<Rightarrow> exn + pyobj" where
  "getitem (DictObj d) k =
     (case dict_get d (CStr k) of
        None \<Rightarrow> Inl (Exception ''KeyError'' k)
      | Some v \<Rightarrow> Inr v)"
| "getitem _ k = Inl (Exception ''TypeError'' ''object is not subscriptable'')"

text \<open>
  Storing under a key hashes it. Lists and dictionaries are unhashable:
  \<open>TypeError: unhashable type: 'list'\<close>.
\<close>

definition unhashable :: "string \<Rightarrow> exn" where
  "unhashable tname =
     Exception ''TypeError'' (''unhashable type: '' @ [CHR 0x27] @ tname @ [CHR 0x27])"

fun hash_key :: "pyobj \<Rightarrow> exn + py_const" where
  "hash_key (Const c) = Inr c"
| "hash_key (ListObj _) = Inl (unhashable ''list'')"
| "hash_key (DictObj _) = Inl (unhashable ''dict'')"

section \<open>The syntax tree\<close>

text \<open>
  The nodes of Python's \<open>ast\<close> module that the script tells apart, with the fields it reads;
  every other node is \<open>Other\<close> with its child nodes in field order. \<open>Str\<close>, \<open>Num\<close>
  and \<open>NameConstant\<close> are the literal nodes of Python before 3.8; of \<open>Num\<close> the script
  only reads \<open>str(node.n)\<close>, which is the field here. A \<open>Dict\<close> key is \<open>None\<close> at a
  \<open>**\<close> entry. \<open>Call\<close> is func, args, keywords (each \<open>arg\<close>, \<open>value\<close>; \<open>arg\<close> is
  \<open>None\<close> for \<open>**kw\<close>), lineno, col_offset.
\<close>

datatype import_alias = Alias (name: string) (asname: "string option")

datatype ast =
    Constant py_const
  | Str string
  | Num string
  | NameConstant py_const
  | Name string
  | List "ast list"
  | Dict "ast option list" "ast list"
  | Call ast "ast list" "(string option \<times> ast) list" int int
  | Keyword "string option" ast
  | Attribute ast string
  | Import "import_alias list" int
  | ImportFrom "string option" "import_alias list" int
  | Module "ast list"
  | Other "ast list"

text \<open>
  \<open>ast.iter_child_nodes\<close>: the child nodes in field order. Expression contexts, operators
  and aliases are leaves that no extractor reacts to; the enumeration leaves them out.
\<close>

fun iter_child_nodes :: "ast \<Rightarrow> ast list" where
  "iter_child_nodes (List elts) = elts"
| "iter_child_nodes (Dict keys vals) =
     concat (map (\<lambda>k. case k of None \<Rightarrow> [] | Some n \<Rightarrow> [n]) keys) @ vals"
| "iter_child_nodes (Call func args keywords _ _) =
     func # args @ map (\<lambda>(a, v). Keyword a v) keywords"
| "iter_child_nodes (Keyword _ v) = [v]"
| "iter_child_nodes (Attribute v _) = [v]"
| "iter_child_nodes (Module body) = body"
| "iter_child_nodes (Other children) = children"
| "iter_child_nodes _ = []"

lemma size_iter_child_nodes: "size_list size (iter_child_nodes n) \<le> size n"
proof (cases n)
  case (Dict keys vals)
  have "size_list size (concat (map (\<lambda>k. case k of None \<Rightarrow> [] | Some n \<Rightarrow> [n]) keys))
        \<le> size_list (size_option size) keys"
    by (induction keys) (auto split: option.splits)
  with Dict show ?thesis by simp
next
  case (Call func args kws l c)
  have "size_list size (map (\<lambda>(a, v). Keyword a v) kws)
        = size_list (size_prod (\<lambda>x. 0) size) kws"
    by (induction kws) auto
  with Call show ?thesis by simp
qed simp_all

text \<open>
  \<open>ast.walk\<close>: breadth first, from a queue; the node taken from the front is yielded and
  its children are appended at the back.
\<close>

function walk_queue :: "ast list \<Rightarrow> ast list" where
  "walk_queue [] = []"
| "walk_queue (node # todo) = node # walk_queue (todo @ iter_child_nodes node)"
  by pat_completeness auto
termination
proof (relation "measure (size_list size)")
  show "wf (measure (size_list size))" by simp
next
  fix node :: ast and todo :: "ast list"
  show "(todo @ iter_child_nodes node, node # todo) \<in> measure (size_list size)"
    using size_iter_child_nodes [of node] by simp
qed

definition walk :: "ast \<Rightarrow> ast list" where
  "walk tree = walk_queue [tree]"

section \<open>The value normalizer\<close>

text \<open>
  \<open>get_value_type\<close> tests \<open>value is None\<close> and then \<open>isinstance\<close> against \<open>bool\<close>,
  \<open>str\<close> and \<open>(int, float)\<close>, in this order. In Python \<open>bool\<close> is a subclass of
  \<open>int\<close>, so the last test accepts a boolean too.
\<close>

definition isinstance_bool :: "py_const \<Rightarrow> bool" where
  "isinstance_bool v = (case v of CBool _ \<Rightarrow> True | _ \<Rightarrow> False)"

definition isinstance_str :: "py_const \<Rightarrow> bool" where
  "isinstance_str v = (case v of CStr _ \<Rightarrow> True | _ \<Rightarrow> False)"

definition isinstance_int_float :: "py_const \<Rightarrow> bool" where
  "isinstance_int_float v =
     (case v of CBool _ \<Rightarrow> True | CInt _ \<Rightarrow> True | CFloat _ \<Rightarrow> True | _ \<Rightarrow> False)"

definition get_value_type :: "py_const \<Rightarrow> string" where
  "get_value_type v =
     (if v = CNone then ''none''
      else if isinstance_bool v then ''bool''
      else if isinstance_str v then ''string''
      else if isinstance_int_float v then ''number''
      else ''unknown'')"

text \<open>The dictionary \<open>{"type": t, "value": v}\<close>.\<close>

definition typed_value :: "string \<Rightarrow> pyobj \<Rightarrow> pyobj" where
  "typed_value t v = DictObj [(CStr ''type'', PyStr t), (CStr ''value'', v)]"

text \<open>
  A list comprehension whose element expression may raise: the first exception ends it.
\<close>

fun map_exn :: "('a \<Rightarrow> exn + 'b) \<Rightarrow> 'a list \<Rightarrow> exn + 'b list" where
  "map_exn f [] = Inr []"
| "map_exn f (x # xs) =
     (case f x of
        Inl e \<Rightarrow> Inl e
      | Inr y \<Rightarrow> (case map_exn f xs of Inl e \<Rightarrow> Inl e | Inr ys \<Rightarrow> Inr (y # ys)))"

lemma map_exn_cong [fundef_cong]:
  "xs = ys \<Longrightarrow> (\<And>x. x \<in> set ys \<Longrightarrow> f x = g x) \<Longrightarrow> map_exn f xs = map_exn g ys"
  by (induction ys arbitrary: xs) (auto split: sum.splits)

text \<open>
  A dictionary comprehension \<open>{fk(k): fv(v) for k, v in kvs}\<close>: for each pair the key
  expression is evaluated, then the value expression, then the value is stored under the
  key, which hashes the key.
\<close>

fun dict_comp :: "('a \<Rightarrow> exn + pyobj) \<Rightarrow> ('b \<Rightarrow> exn + pyobj) \<Rightarrow> ('a \<times> 'b) list \<Rightarrow> pydict \<Rightarrow> exn + pydict" where
  "dict_comp fk fv [] d = Inr d"
| "dict_comp fk fv ((k, v) # kvs) d =
     (case fk k of
        Inl e \<Rightarrow> Inl e
      | Inr key \<Rightarrow>
         (case fv v of
            Inl e \<Rightarrow> Inl e
          | Inr val \<Rightarrow>
             (case hash_key key of
                Inl e \<Rightarrow> Inl e
              | Inr h \<Rightarrow> dict_comp fk fv kvs (dict_set d h val))))"

lemma dict_comp_cong [fundef_cong]:
  "kvs = kvs' \<Longrightarrow> (\<And>k v. (k, v) \<in> set kvs' \<Longrightarrow> fk k = fk' k) \<Longrightarrow>
   (\<And>k v. (k, v) \<in> set kvs' \<Longrightarrow> fv v = fv' v) \<Longrightarrow>
   dict_comp fk fv kvs d = dict_comp fk' fv' kvs' d"
proof (induction kvs' arbitrary: kvs d)
  case Nil
  then show ?case by simp
next
  case (Cons a kvs')
  obtain k v where a: "a = (k, v)" by (cases a)
  have hd: "fk k = fk' k" "fv v = fv' v"
    using Cons.prems(2,3) [of k v] by (simp_all add: a)
  have tl: "dict_comp fk fv kvs' d' = dict_comp fk' fv' kvs' d'" for d'
    using Cons.prems(2,3) by (intro Cons.IH) auto
  show ?case
    by (simp add: Cons.prems(1) a hd tl cong: sum.case_cong)
qed

text \<open>
  \<open>extract_value\<close>. A \<open>Dict\<close> key that is \<open>None\<close> is no AST node and falls through to
  the last branch.
\<close>

function (sequential) extract_value :: "ast \<Rightarrow> exn + pyobj" where
  "extract_value (Constant v) = Inr (typed_value (get_value_type v) (Const v))"
| "extract_value (Str s) = Inr (typed_value ''string'' (PyStr s))"
| "extract_value (Num sn) = Inr (typed_value ''number'' (PyStr sn))"
| "extract_value (NameConstant v) = Inr (typed_value (get_value_type v) (Const v))"
| "extract_value (Name i) = Inr (typed_value ''variable'' (PyStr i))"
| "extract_value (List elts) =
     (case map_exn extract_value elts of
        Inl e \<Rightarrow> Inl e
      | Inr vs \<Rightarrow> Inr (typed_value ''list'' (ListObj vs)))"
| "extract_value (Dict keys vals) =
     (case dict_comp
             (\<lambda>k. case (case k of None \<Rightarrow> Inr (typed_value ''unknown'' PyNone)
                                | Some n \<Rightarrow> extract_value n) of
                    Inl e \<Rightarrow> Inl e
                  | Inr kv \<Rightarrow> getitem kv ''value'')
             extract_value (zip keys vals) [] of
        Inl e \<Rightarrow> Inl e
      | Inr d \<Rightarrow> Inr (typed_value ''dict'' (DictObj d)))"
| "extract_value _ = Inr (typed_value ''unknown'' PyNone)"
  by pat_completeness auto
termination
proof (relation "measure size", goal_cases)
  case 1
  show ?case by simp
next
  case (2 elts x)
  then show ?case
    using size_list_estimation' [of x elts "size x" size] by simp
next
  case (3 keys vals k v n)
  then have "Some n \<in> set keys"
    by (auto dest: set_zip_leftD)
  then show ?case
    using size_list_estimation' [of "Some n" keys "Suc (size n)" "size_option size"] by simp
next
  case (4 keys vals k v)
  then have "v \<in> set vals"
    by (auto dest: set_zip_rightD)
  then show ?case
    using size_list_estimation' [of v vals "size v" size] by simp
qed


section \<open>The import extractor\<close>

text \<open>\<open>x or ""\<close> for an optional string.\<close>

definition or_empty :: "string option \<Rightarrow> string" where
  "or_empty s = (case s of None \<Rightarrow> [] | Some t \<Rightarrow> t)"

text \<open>The body of the loop of \<open>extract_imports\<close>, on the list \<open>imports\<close>.\<close>

fun import_step :: "pyobj list \<Rightarrow> ast \<Rightarrow> pyobj list" where
  "import_step imports (Import names lineno) =
     imports @
     map (\<lambda>a. DictObj
                 [(CStr ''module'', PyStr (name a)),
                  (CStr ''names'', ListObj [PyStr (name a)]),
                  (CStr ''alias'', PyStr (or_empty (asname a))),
                  (CStr ''lineno'', PyInt lineno)]) names"
| "import_step imports (ImportFrom modname names lineno) =
     imports @
     [DictObj
        [(CStr ''module'', PyStr (or_empty modname)),
         (CStr ''names'', ListObj (map (\<lambda>a. PyStr (name a)) names)),
         (CStr ''alias'', PyStr []),
         (CStr ''lineno'', PyInt lineno)]]"
| "import_step imports _ = imports"

definition extract_imports :: "ast \<Rightarrow> pyobj list" where
  "extract_imports tree = foldl import_step [] (walk tree)"

section \<open>The call extractor\<close>

text \<open>\<open>sep.join(parts)\<close>.\<close>

fun join :: "string \<Rightarrow> string list \<Rightarrow> string" where
  "join sep [] = []"
| "join sep [x] = x"
| "join sep (x # y # ys) = x @ sep @ join sep (y # ys)"

text \<open>
  The \<open>while\<close> loop over the attribute chain: \<open>parts.insert(0, current.attr)\<close> and
  \<open>current = current.value\<close>, until \<open>current\<close> is no \<open>Attribute\<close>.
\<close>

fun module_path :: "ast \<Rightarrow> string list \<Rightarrow> ast \<times> string list" where
  "module_path (Attribute v attr) parts = module_path v (attr # parts)"
| "module_path current parts = (current, parts)"

text \<open>The decimal digits of the index in \<open>f"arg_{i}"\<close>.\<close>

definition digit_char :: "nat \<Rightarrow> char" where
  "digit_char d = char_of (48 + d)"

fun str_nat :: "nat \<Rightarrow> string" where
  "str_nat n = (if n < 10 then [digit_char n] else str_nat (n div 10) @ [digit_char (n mod 10)])"

declare str_nat.simps [simp del]

text \<open>\<open>keyword.arg\<close> as a dictionary key: the name, or \<open>None\<close> for \<open>**kw\<close>.\<close>

definition key_of :: "string option \<Rightarrow> py_const" where
  "key_of a = (case a of None \<Rightarrow> CNone | Some s \<Rightarrow> CStr s)"

text \<open>
  The two loops that fill \<open>call_info["arguments"]\<close>. The dictionary is threaded through
  them and stored into the record afterwards; in the source it is the object already
  stored under \<open>"arguments"\<close> and is updated in place.
\<close>

fun positional_arguments :: "nat \<Rightarrow> ast list \<Rightarrow> pydict \<Rightarrow> exn + pydict" where
  "positional_arguments i [] arguments = Inr arguments"
| "positional_arguments i (arg # args) arguments =
     (case extract_value arg of
        Inl e \<Rightarrow> Inl e
      | Inr v \<Rightarrow> positional_arguments (Suc i) args (dict_set arguments (CStr (''arg_'' @ str_nat i)) v))"

fun keyword_arguments :: "(string option \<times> ast) list \<Rightarrow> pydict \<Rightarrow> exn + pydict" where
  "keyword_arguments [] arguments = Inr arguments"
| "keyword_arguments ((arg, v) # kws) arguments =
     (case extract_value v of
        Inl e \<Rightarrow> Inl e
      | Inr tv \<Rightarrow> keyword_arguments kws (dict_set arguments (key_of arg) tv))"

text \<open>
  \<open>str.strip()\<close> and \<open>str.split('\n')\<close>. A character is a code point below 256; the
  whitespace among them is what \<open>str.isspace\<close> accepts.
\<close>

definition isspace :: "char \<Rightarrow> bool" where
  "isspace c = ((of_char c :: nat) \<in> {9, 10, 11, 12, 13, 28, 29, 30, 31, 32, 133, 160})"

definition strip :: "string \<Rightarrow> string" where
  "strip s = rev (dropWhile isspace (rev (dropWhile isspace s)))"

definition split_lines :: "string \<Rightarrow> string list" where
  "split_lines s =
     foldr (\<lambda>c acc. if c = CHR 0x0A then [] # acc else (c # hd acc) # tl acc) s [[]]"

text \<open>The branch that determines \<open>function\<close> and \<open>module\<close>.\<close>

definition resolve_callee :: "ast \<Rightarrow> pydict \<Rightarrow> pydict" where
  "resolve_callee func call_info =
     (case func of
        Name i \<Rightarrow> dict_set call_info (CStr ''function'') (PyStr i)
      | Attribute v attr \<Rightarrow>
          (let call_info' = dict_set call_info (CStr ''function'') (PyStr attr);
               (current, parts) = module_path v []
           in case current of
                Name i \<Rightarrow> dict_set call_info' (CStr ''module'') (PyStr (join ''.'' (i # parts)))
              | _ \<Rightarrow> call_info')
      | _ \<Rightarrow> call_info)"

text \<open>The body of the loop of \<open>extract_calls\<close> for one \<open>Call\<close> node.\<close>

definition call_record ::
  "ast \<Rightarrow> ast list \<Rightarrow> (string option \<times> ast) list \<Rightarrow> int \<Rightarrow> int \<Rightarrow> string list \<Rightarrow> exn + pyobj" where
  "call_record func args kws lineno col_offset source_lines =
     (let call_info = resolve_callee func
            [(CStr ''lineno'', PyInt lineno),
             (CStr ''col_offset'', PyInt col_offset),
             (CStr ''function'', PyNone),
             (CStr ''module'', PyNone),
             (CStr ''arguments'', DictObj [])]
      in case positional_arguments 0 args [] of
           Inl e \<Rightarrow> Inl e
         | Inr pos \<Rightarrow>
            (case keyword_arguments kws pos of
               Inl e \<Rightarrow> Inl e
             | Inr arguments \<Rightarrow>
                (let call_info = dict_set call_info (CStr ''arguments'') (DictObj arguments)
                 in Inr (DictObj
                      (if 0 \<le> lineno - 1 \<and> lineno - 1 < int (length source_lines)
                       then dict_set call_info (CStr ''source_code'')
                              (PyStr (strip (source_lines ! nat (lineno - 1))))
                       else call_info)))))"

fun extract_calls_loop :: "ast list \<Rightarrow> string list \<Rightarrow> pyobj list \<Rightarrow> exn + pyobj list" where
  "extract_calls_loop [] source_lines calls = Inr calls"
| "extract_calls_loop (node # nodes) source_lines calls =
     (case node of
        Call func args kws lineno col_offset \<Rightarrow>
          (case call_record func args kws lineno col_offset source_lines of
             Inl e \<Rightarrow> Inl e
           | Inr call_info \<Rightarrow> extract_calls_loop nodes source_lines (calls @ [call_info]))
      | _ \<Rightarrow> extract_calls_loop nodes source_lines calls)"

definition extract_calls :: "ast \<Rightarrow> string list \<Rightarrow> exn + pyobj list" where
  "extract_calls tree source_lines = extract_calls_loop (walk tree) source_lines []"

section \<open>The result assembler\<close>

definition opt_int :: "int option \<Rightarrow> pyobj" where
  "opt_int x = (case x of None \<Rightarrow> PyNone | Some i \<Rightarrow> PyInt i)"

definition opt_str :: "string option \<Rightarrow> pyobj" where
  "opt_str x = (case x of None \<Rightarrow> PyNone | Some s \<Rightarrow> PyStr s)"

text \<open>
  \<open>parse_python_code\<close>. The front end \<open>ast.parse\<close> is not part of the script: the
  outcome of \<open>ast.parse(source_code)\<close>, the tree it returns or the exception it raises,
  is the first argument. The inner \<open>case\<close> is the \<open>try\<close> block, the outer one the
  two handlers.
\<close>

definition parse_python_code :: "exn + ast \<Rightarrow> string \<Rightarrow> pyobj" where
  "parse_python_code parsed source_code =
     (case (case parsed of
              Inl e \<Rightarrow> Inl e
            | Inr tree \<Rightarrow>
               (let source_lines = split_lines source_code;
                    imports = extract_imports tree
                in case extract_calls tree source_lines of
                     Inl e \<Rightarrow> Inl e
                   | Inr calls \<Rightarrow>
                      Inr (DictObj
                        [(CStr ''language'', PyStr ''python''),
                         (CStr ''imports'', ListObj imports),
                         (CStr ''calls'', ListObj calls),
                         (CStr ''source_code'', PyStr source_code),
                         (CStr ''success'', PyBool True),
                         (CStr ''error'', PyNone)]))) of
        Inr result \<Rightarrow> result
      | Inl (SyntaxError msg lineno offset text) \<Rightarrow>
          DictObj
            [(CStr ''success'', PyBool False),
             (CStr ''error'', DictObj
                [(CStr ''type'', PyStr ''SyntaxError''),
                 (CStr ''message'', PyStr msg),
                 (CStr ''lineno'', opt_int lineno),
                 (CStr ''offset'', opt_int offset),
                 (CStr ''text'', opt_str text)])]
      | Inl (Exception tname msg) \<Rightarrow>
          DictObj
            [(CStr ''success'', PyBool False),
             (CStr ''error'', DictObj
                [(CStr ''type'', PyStr tname),
                 (CStr ''message'', PyStr msg)])])"

section \<open>Notions used in the statements\<close>

text \<open>\<open>list(d.keys())\<close>.\<close>

fun dict_keys :: "pyobj \<Rightarrow> py_const list" where
  "dict_keys (DictObj d) = map fst d"
| "dict_keys _ = []"

text \<open>A list or mapping literal: the nodes whose payload is an unhashable object.\<close>

fun container_literal :: "ast \<Rightarrow> bool" where
  "container_literal (List _) = True"
| "container_literal (Dict _ _) = True"
| "container_literal _ = False"

text \<open>
  No mapping literal of the node, through list elements, mapping keys and mapping values,
  has a list or mapping literal as a key (of the pairs that \<open>zip\<close> keeps).
\<close>

function (sequential) normalizable :: "ast \<Rightarrow> bool" where
  "normalizable (List elts) = list_all normalizable elts"
| "normalizable (Dict keys vals) =
     list_all (\<lambda>(k, v). (case k of None \<Rightarrow> True
                           | Some n \<Rightarrow> normalizable n \<and> \<not> container_literal n)
                        \<and> normalizable v)
       (zip keys vals)"
| "normalizable _ = True"
  by pat_completeness auto
termination
proof (relation "measure size", goal_cases)
  case 1
  show ?case by simp
next
  case (2 elts x)
  then show ?case
    using size_list_estimation' [of x elts "size x" size] by simp
next
  case (3 keys vals z k v n)
  then have "Some n \<in> set keys"
    by (auto dest: set_zip_leftD)
  then show ?case
    using size_list_estimation' [of "Some n" keys "Suc (size n)" "size_option size"] by simp
next
  case (4 keys vals z k v)
  then have "v \<in> set vals"
    by (auto dest: set_zip_rightD)
  then show ?case
    using size_list_estimation' [of v vals "size v" size] by simp
qed

text \<open>The type tags of a typed value.\<close>

definition value_kinds :: "string list" where
  "value_kinds =
     [''none'', ''bool'', ''string'', ''number'', ''variable'', ''list'', ''dict'', ''unknown'']"



text \<open>The key \<open>f"arg_{i}"\<close> of the positional argument \<open>i\<close>.\<close>

definition arg_key :: "nat \<Rightarrow> py_const" where
  "arg_key i = CStr (''arg_'' @ str_nat i)"


text \<open>
  Every positional argument and every keyword value of a call is normalizable; of a tree:
  of every call that \<open>ast.walk\<close> yields.
\<close>

fun call_normalizable :: "ast \<Rightarrow> bool" where
  "call_normalizable (Call func args kws lineno col_offset) =
     (list_all normalizable args \<and> list_all (\<lambda>(a, v). normalizable v) kws)"
| "call_normalizable _ = True"

definition arguments_normalizable :: "ast \<Rightarrow> bool" where
  "arguments_normalizable tree = list_all call_normalizable (walk tree)"


text \<open>Every node of a tree, depth first: the node, then the nodes of its children.\<close>

lemma size_list_member: "x \<in> set xs \<Longrightarrow> f x < size_list f xs"
  by (induction xs) auto

function subnodes :: "ast \<Rightarrow> ast list" where
  "subnodes n = n # concat (map subnodes (iter_child_nodes n))"
  by pat_completeness auto
termination
proof (relation "measure size", goal_cases)
  case 1
  show ?case by simp
next
  case (2 n x)
  then show ?case
    using size_list_member [of x "iter_child_nodes n" size] size_iter_child_nodes [of n]
    by simp
qed

declare subnodes.simps [simp del]

text \<open>
  Sample trees, as \<open>ast.parse\<close> of CPython 3.8 and later returns them: of the text
  \<open>f(g(1))\<close>, and of the two lines \<open>import os\<close> and \<open>f({{}: 1})\<close>. An
  expression statement is an \<open>Other\<close> node around its expression.
\<close>

definition nested_call_tree :: ast where
  "nested_call_tree =
     Module [Other [Call (Name ''f'') [Call (Name ''g'') [Constant (CInt 1)] [] 1 2] [] 1 0]]"

definition dict_key_tree :: ast where
  "dict_key_tree =
     Module [Import [Alias ''os'' None] 1,
             Other [Call (Name ''f'') [Dict [Some (Dict [] [])] [Constant (CInt 1)]] [] 2 0]]"

text \<open>\<open>isinstance(node, ast.Name)\<close> and \<open>isinstance(node, ast.Attribute)\<close>.\<close>

fun is_name :: "ast \<Rightarrow> bool" where
  "is_name (Name _) = True"
| "is_name _ = False"

fun is_attribute :: "ast \<Rightarrow> bool" where
  "is_attribute (Attribute _ _) = True"
| "is_attribute _ = False"

text \<open>The tree of the text \<open>pkg.storage.upload(x)\<close>.\<close>

definition qualified_call_tree :: ast where
  "qualified_call_tree =
     Module [Other [Call (Attribute (Attribute (Name ''pkg'') ''storage'') ''upload'')
                      [Name ''x''] [] 1 0]]"

section \<open>Dictionaries\<close>

lemma key_eq_CStr [simp]:
  "key_eq (CStr a) k = (k = CStr a)" "key_eq k (CStr a) = (k = CStr a)"
  by (cases k; auto simp: key_eq_def)+

lemma key_eq_CNone [simp]:
  "key_eq CNone k = (k = CNone)" "key_eq k CNone = (k = CNone)"
  by (cases k; auto simp: key_eq_def)+

lemma key_eq_iff: "key_eq a b = (num_of a = num_of b \<and> (num_of a = None \<longrightarrow> a = b))"
  by (cases "num_of a"; cases "num_of b") (auto simp: key_eq_def)

lemma key_eq_sym: "key_eq a b = key_eq b a"
  unfolding key_eq_iff by metis

lemma key_eq_trans: "key_eq a b \<Longrightarrow> key_eq b c \<Longrightarrow> key_eq a c"
  unfolding key_eq_iff by metis

lemma dict_get_dict_set:
  "dict_get (dict_set d k v) q = (if key_eq k q then Some v else dict_get d q)"
proof (induction d)
  case Nil
  show ?case by simp
next
  case (Cons p d)
  obtain k' v' where p: "p = (k', v')" by (cases p)
  show ?case
  proof (cases "key_eq k' k")
    case True
    then have "key_eq k' q = key_eq k q"
      using key_eq_trans key_eq_sym by blast
    with True show ?thesis by (simp add: p)
  next
    case False
    then have "key_eq k q \<Longrightarrow> \<not> key_eq k' q"
      using key_eq_trans key_eq_sym by blast
    with False Cons.IH show ?thesis by (simp add: p)
  qed
qed


lemma get_value_type_kinds: "get_value_type c \<in> set value_kinds"
  by (simp add: get_value_type_def value_kinds_def)

lemma map_exn_Inr_iff:
  "(\<exists>ys. map_exn f xs = Inr ys) = (\<forall>x\<in>set xs. \<exists>y. f x = Inr y)"
  by (induction xs) (auto split: sum.splits)

lemma map_exn_Inl: "map_exn f xs = Inl e \<Longrightarrow> \<exists>x\<in>set xs. f x = Inl e"
  by (induction xs) (auto split: sum.splits)

lemma dict_comp_Inr_iff:
  "(\<exists>d'. dict_comp fk fv kvs d = Inr d') =
   (\<forall>(k, v)\<in>set kvs. \<exists>key val h. fk k = Inr key \<and> fv v = Inr val \<and> hash_key key = Inr h)"
proof (induction kvs arbitrary: d)
  case Nil
  show ?case by simp
next
  case (Cons p kvs)
  obtain k v where p: "p = (k, v)" by (cases p)
  show ?case
    using Cons.IH by (auto simp: p split: sum.splits)
qed

lemma dict_comp_Inl:
  "dict_comp fk fv kvs d = Inl e \<Longrightarrow>
   \<exists>(k, v)\<in>set kvs. fk k = Inl e \<or> fv v = Inl e \<or> (\<exists>key. fk k = Inr key \<and> hash_key key = Inl e)"
proof (induction kvs arbitrary: d)
  case Nil
  then show ?case by simp
next
  case (Cons p kvs)
  obtain k v where p: "p = (k, v)" by (cases p)
  show ?case
    using Cons.prems Cons.IH by (auto simp: p split: sum.splits)
qed

lemma getitem_typed_value [simp]:
  "getitem (typed_value t v) ''value'' = Inr v"
  "getitem (typed_value t v) ''type'' = Inr (PyStr t)"
  by (simp_all add: typed_value_def)

section \<open>The normalizer succeeds on normalizable nodes only\<close>

lemma value_kinds_mem [simp]:
  "''string'' \<in> set value_kinds" "''number'' \<in> set value_kinds"
  "''variable'' \<in> set value_kinds" "''list'' \<in> set value_kinds"
  "''dict'' \<in> set value_kinds" "''unknown'' \<in> set value_kinds"
  by (simp_all add: value_kinds_def)

lemma extract_value_shape:
  assumes "extract_value n = Inr r"
  shows "\<exists>t v. r = typed_value t v \<and> t \<in> set value_kinds
           \<and> (if container_literal n then \<forall>c. v \<noteq> Const c else \<exists>c. v = Const c)"
  using assms
  by (cases n) (force simp: get_value_type_kinds split: sum.splits)+

lemma extract_key_hashable:
  assumes "extract_value n = Inr r"
  shows "(\<exists>v h. getitem r ''value'' = Inr v \<and> hash_key v = Inr h) = (\<not> container_literal n)"
proof -
  obtain t v where r: "r = typed_value t v"
    and c: "if container_literal n then \<forall>c. v \<noteq> Const c else \<exists>c. v = Const c"
    using extract_value_shape [OF assms] by blast
  show ?thesis
    using c by (cases v) (auto simp: r split: if_splits)
qed

lemma extract_value_Inr_iff: "(\<exists>r. extract_value n = Inr r) = normalizable n"
proof (induction n rule: extract_value.induct)
  case (6 elts)
  have "(\<exists>r. extract_value (List elts) = Inr r) = (\<exists>vs. map_exn extract_value elts = Inr vs)"
    by (auto split: sum.splits)
  also have "\<dots> = (\<forall>x\<in>set elts. \<exists>y. extract_value x = Inr y)"
    by (rule map_exn_Inr_iff)
  also have "\<dots> = list_all normalizable elts"
    using 6 by (simp add: list_all_iff)
  finally show ?case by simp
next
  case (7 keys vals)
  let ?fk = "\<lambda>k. case (case k of None \<Rightarrow> Inr (typed_value ''unknown'' PyNone)
                                | Some n \<Rightarrow> extract_value n) of
                    Inl e \<Rightarrow> Inl e
                  | Inr kv \<Rightarrow> getitem kv ''value''"
  let ?L = "\<lambda>k v. \<exists>key val h. ?fk k = Inr key \<and> extract_value v = Inr val \<and> hash_key key = Inr h"
  let ?R = "\<lambda>k v. (case k of None \<Rightarrow> True | Some n \<Rightarrow> normalizable n \<and> \<not> container_literal n)
                   \<and> normalizable v"
  have key: "(\<exists>key h. ?fk k = Inr key \<and> hash_key key = Inr h)
             = (case k of None \<Rightarrow> True | Some n \<Rightarrow> normalizable n \<and> \<not> container_literal n)"
    if "(k, v) \<in> set (zip keys vals)" for k v
  proof (cases k)
    case None
    then show ?thesis by simp
  next
    case (Some m)
    have ih: "(\<exists>r. extract_value m = Inr r) = normalizable m"
      using 7(1) [OF that Some] .
    show ?thesis
    proof (cases "extract_value m")
      case (Inl e)
      with ih show ?thesis by (simp add: Some)
    next
      case (Inr r)
      with ih have "normalizable m" by auto
      then show ?thesis
        using extract_key_hashable [OF Inr] by (simp add: Some Inr)
    qed
  qed
  have pair: "?L k v = ?R k v" if "(k, v) \<in> set (zip keys vals)" for k v
  proof -
    have "?L k v = ((\<exists>key h. ?fk k = Inr key \<and> hash_key key = Inr h)
                    \<and> (\<exists>val. extract_value v = Inr val))"
      by blast
    then show ?thesis
      using key [OF that] 7(2) [OF that] by simp
  qed
  have "(\<exists>r. extract_value (Dict keys vals) = Inr r)
        = (\<exists>d. dict_comp ?fk extract_value (zip keys vals) [] = Inr d)"
    by (auto split: sum.splits)
  also have "\<dots> = (\<forall>(k, v)\<in>set (zip keys vals). ?L k v)"
    by (rule dict_comp_Inr_iff)
  also have "\<dots> = (\<forall>(k, v)\<in>set (zip keys vals). ?R k v)"
  proof (intro ball_cong refl)
    fix x
    assume x: "x \<in> set (zip keys vals)"
    obtain k v where xkv: "x = (k, v)" by (cases x)
    show "(case x of (k, v) \<Rightarrow> ?L k v) = (case x of (k, v) \<Rightarrow> ?R k v)"
      using pair [of k v] x by (simp add: xkv)
  qed
  finally show ?case by (simp add: list_all_iff)
qed simp_all

lemma hash_key_Inl: "hash_key v = Inl e \<Longrightarrow> e = unhashable ''list'' \<or> e = unhashable ''dict''"
  by (cases v) auto

lemma extract_value_Inl:
  "extract_value n = Inl e \<Longrightarrow> e = unhashable ''list'' \<or> e = unhashable ''dict''"
proof (induction n rule: extract_value.induct)
  case (6 elts)
  from 6(2) have "map_exn extract_value elts = Inl e"
    by (simp split: sum.splits)
  then obtain x where "x \<in> set elts" "extract_value x = Inl e"
    using map_exn_Inl by blast
  then show ?case using 6(1) by blast
next
  case (7 keys vals)
  let ?fk = "\<lambda>k. case (case k of None \<Rightarrow> Inr (typed_value ''unknown'' PyNone)
                                | Some n \<Rightarrow> extract_value n) of
                    Inl e \<Rightarrow> Inl e
                  | Inr kv \<Rightarrow> getitem kv ''value''"
  from 7(3) have "dict_comp ?fk extract_value (zip keys vals) [] = Inl e"
    by (simp split: sum.splits)
  then obtain k v where kv: "(k, v) \<in> set (zip keys vals)"
    and c: "?fk k = Inl e \<or> extract_value v = Inl e \<or> (\<exists>key. ?fk k = Inr key \<and> hash_key key = Inl e)"
    using dict_comp_Inl [of ?fk extract_value "zip keys vals" "[]" e] by blast
  from c show ?case
  proof (elim disjE exE conjE)
    assume fk: "?fk k = Inl e"
    then obtain m where m: "k = Some m"
      by (cases k) auto
    show ?thesis
    proof (cases "extract_value m")
      case (Inl e')
      with fk m have "e' = e" by simp
      with Inl 7(1) [OF kv m] show ?thesis by simp
    next
      case (Inr r)
      then obtain t w where "r = typed_value t w"
        using extract_value_shape by blast
      with fk m Inr show ?thesis by simp
    qed
  next
    assume "extract_value v = Inl e"
    then show ?thesis using 7(2) [OF kv] by simp
  next
    fix key
    assume "hash_key key = Inl e"
    then show ?thesis by (rule hash_key_Inl)
  qed
qed simp_all

section \<open>The call extractor\<close>

lemma positional_arguments_Inr_iff:
  "(\<exists>d'. positional_arguments i args d = Inr d') = list_all normalizable args"
proof (induction args arbitrary: i d)
  case Nil
  show ?case by simp
next
  case (Cons a args)
  show ?case
    using Cons.IH extract_value_Inr_iff [of a]
    by (cases "extract_value a") auto
qed

lemma keyword_arguments_Inr_iff:
  "(\<exists>d'. keyword_arguments kws d = Inr d') = list_all (\<lambda>(a, v). normalizable v) kws"
proof (induction kws arbitrary: d)
  case Nil
  show ?case by simp
next
  case (Cons p kws)
  obtain a v where p: "p = (a, v)" by (cases p)
  show ?case
    using Cons.IH extract_value_Inr_iff [of v]
    by (cases "extract_value v") (auto simp: p)
qed

lemma call_record_Inr_iff:
  "(\<exists>r. call_record func args kws lineno col_offset source_lines = Inr r)
   = (list_all normalizable args \<and> list_all (\<lambda>(a, v). normalizable v) kws)"
proof (cases "positional_arguments 0 args []")
  case (Inl e)
  then show ?thesis
    using positional_arguments_Inr_iff [of 0 args "[]"]
    by (simp add: call_record_def)
next
  case (Inr pos)
  then have "list_all normalizable args"
    using positional_arguments_Inr_iff [of 0 args "[]"] by auto
  then show ?thesis
    using keyword_arguments_Inr_iff [of kws pos] Inr
    by (cases "keyword_arguments kws pos") (auto simp: call_record_def Let_def)
qed

lemma extract_calls_loop_Inr_iff:
  "(\<exists>cs. extract_calls_loop nodes source_lines calls = Inr cs) = list_all call_normalizable nodes"
proof (induction nodes arbitrary: calls)
  case Nil
  show ?case by simp
next
  case (Cons n nodes)
  show ?case
  proof (cases n)
    case (Call func args kws lineno col_offset)
    show ?thesis
      using Cons.IH call_record_Inr_iff [of func args kws lineno col_offset source_lines]
      by (cases "call_record func args kws lineno col_offset source_lines")
         (auto simp: Call)
  qed (simp_all add: Cons.IH)
qed


lemma mset_walk_queue: "mset (walk_queue q) = mset (concat (map subnodes q))"
proof (induction q rule: walk_queue.induct)
  case 1
  show ?case by simp
next
  case (2 node todo)
  show ?case
    using 2 by (simp add: subnodes.simps [of node])
qed

lemma mset_walk: "mset (walk tree) = mset (subnodes tree)"
  by (simp add: walk_def mset_walk_queue subnodes.simps [of tree])

lemma positional_arguments_Inl:
  "positional_arguments i args d = Inl e \<Longrightarrow> \<exists>a\<in>set args. extract_value a = Inl e"
  by (induction args arbitrary: i d) (auto split: sum.splits)

lemma keyword_arguments_Inl:
  "keyword_arguments kws d = Inl e \<Longrightarrow> \<exists>(a, v)\<in>set kws. extract_value v = Inl e"
  by (induction kws arbitrary: d) (auto split: sum.splits)

lemma call_record_Inl:
  assumes "call_record func args kws lineno col_offset source_lines = Inl e"
  shows "e = unhashable ''list'' \<or> e = unhashable ''dict''"
proof -
  have "(\<exists>a\<in>set args. extract_value a = Inl e) \<or> (\<exists>(a, v)\<in>set kws. extract_value v = Inl e)"
    using assms positional_arguments_Inl [of 0 args "[]" e] keyword_arguments_Inl [of kws _ e]
    by (auto simp: call_record_def Let_def split: sum.splits)
  then show ?thesis
    using extract_value_Inl by blast
qed

lemma extract_calls_loop_Inl:
  "extract_calls_loop nodes source_lines calls = Inl e \<Longrightarrow>
   e = unhashable ''list'' \<or> e = unhashable ''dict''"
proof (induction nodes arbitrary: calls)
  case Nil
  then show ?case by simp
next
  case (Cons n nodes)
  show ?case
  proof (cases n)
    case (Call func args kws lineno col_offset)
    show ?thesis
    proof (cases "call_record func args kws lineno col_offset source_lines")
      case (Inl e')
      with Cons.prems Call have "e' = e" by simp
      with Inl show ?thesis using call_record_Inl by blast
    next
      case (Inr r)
      with Cons.prems Call show ?thesis using Cons.IH by simp
    qed
  qed (use Cons in auto)
qed

section \<open>The import extractor\<close>

lemma import_step_append: "import_step acc n = acc @ import_step [] n"
  by (cases n) simp_all

lemma foldl_import_step:
  "foldl import_step acc nodes = acc @ concat (map (import_step []) nodes)"
proof (induction nodes arbitrary: acc)
  case Nil
  show ?case by simp
next
  case (Cons n nodes)
  show ?case
    using import_step_append [of acc n] by (simp add: Cons.IH)
qed

section \<open>The envelope\<close>

lemma parse_python_code_cases:
  "(\<exists>imports calls. parse_python_code parsed D =
       DictObj
         [(CStr ''language'', PyStr ''python''),
          (CStr ''imports'', ListObj imports),
          (CStr ''calls'', ListObj calls),
          (CStr ''source_code'', PyStr D),
          (CStr ''success'', PyBool True),
          (CStr ''error'', PyNone)])
   \<or> (\<exists>err. parse_python_code parsed D =
         DictObj [(CStr ''success'', PyBool False), (CStr ''error'', DictObj err)])"
  by (auto simp: parse_python_code_def Let_def split: sum.splits exn.splits)

section \<open>Argument keys and callee resolution\<close>

lemma digit_char_inj: "a < 10 \<Longrightarrow> b < 10 \<Longrightarrow> digit_char a = digit_char b \<Longrightarrow> a = b"
proof -
  assume a: "a < 10" and b: "b < 10" and e: "digit_char a = digit_char b"
  from e have "(of_char (digit_char a) :: nat) = of_char (digit_char b)" by simp
  then have "(48 + a) mod 256 = (48 + b) mod 256"
    by (simp add: digit_char_def)
  with a b show "a = b" by simp
qed

lemma str_nat_small: "n < 10 \<Longrightarrow> str_nat n = [digit_char n]"
  by (simp add: str_nat.simps)

lemma str_nat_large: "\<not> n < 10 \<Longrightarrow> str_nat n = str_nat (n div 10) @ [digit_char (n mod 10)]"
  by (subst str_nat.simps) simp

lemma str_nat_nonempty: "str_nat n \<noteq> []"
  by (cases "n < 10") (simp_all add: str_nat_small str_nat_large)

lemma str_nat_inj: "str_nat m = str_nat n \<Longrightarrow> m = n"
proof (induction m arbitrary: n rule: str_nat.induct)
  case (1 m)
  show ?case
  proof (cases "m < 10")
    case True
    note m = this
    show ?thesis
    proof (cases "n < 10")
      case True
      with m "1.prems" show ?thesis
        by (simp add: str_nat_small digit_char_inj)
    next
      case False
      with m "1.prems" str_nat_nonempty [of "n div 10"] show ?thesis
        by (simp add: str_nat_small str_nat_large)
    qed
  next
    case False
    note m = this
    show ?thesis
    proof (cases "n < 10")
      case True
      with m "1.prems" str_nat_nonempty [of "m div 10"] show ?thesis
        by (simp add: str_nat_small str_nat_large)
    next
      case False
      with m "1.prems" have eq: "str_nat (m div 10) = str_nat (n div 10)"
        and d: "digit_char (m mod 10) = digit_char (n mod 10)"
        by (simp_all add: str_nat_large)
      have "m div 10 = n div 10"
        using "1.IH" [OF m eq] .
      moreover have "m mod 10 = n mod 10"
        using d by (intro digit_char_inj) simp_all
      ultimately show ?thesis
        by (metis div_mult_mod_eq)
    qed
  qed
qed

lemma dict_set_fresh: "dict_get d k = None \<Longrightarrow> dict_set d k v = d @ [(k, v)]"
  by (induction d) (auto split: if_splits)

lemma module_path_chain:
  "module_path (foldl Attribute base ns) parts = module_path base (ns @ parts)"
proof (induction ns arbitrary: parts rule: rev_induct)
  case Nil
  show ?case by simp
next
  case (snoc n ns)
  show ?case by (simp add: snoc.IH)
qed

lemma module_path_root: "\<not> is_attribute base \<Longrightarrow> module_path base parts = (base, parts)"
  by (cases base) simp_all

lemma call_record_fields:
  assumes "call_record func args kws lineno col_offset source_lines = Inr r"
  shows "\<exists>pos arguments info.
           positional_arguments 0 args [] = Inr pos
         \<and> keyword_arguments kws pos = Inr arguments
         \<and> r = DictObj info
         \<and> dict_get info (CStr ''arguments'') = Some (DictObj arguments)
         \<and> (\<forall>k. k \<noteq> ''arguments'' \<and> k \<noteq> ''source_code'' \<longrightarrow>
               dict_get info (CStr k) =
               dict_get (resolve_callee func
                  [(CStr ''lineno'', PyInt lineno),
                   (CStr ''col_offset'', PyInt col_offset),
                   (CStr ''function'', PyNone),
                   (CStr ''module'', PyNone),
                   (CStr ''arguments'', DictObj [])]) (CStr k))"
  using assms
  by (auto simp: call_record_def Let_def dict_get_dict_set split: sum.splits if_splits)

lemma resolve_callee_bare:
  "dict_get (resolve_callee (Name f) d) (CStr k) =
     (if k = ''function'' then Some (PyStr f) else dict_get d (CStr k))"
  by (simp add: resolve_callee_def dict_get_dict_set)

lemma resolve_callee_named:
  "dict_get (resolve_callee (Attribute (foldl Attribute (Name a) ns) c) d) (CStr k) =
     (if k = ''module'' then Some (PyStr (join ''.'' (a # ns)))
      else if k = ''function'' then Some (PyStr c)
      else dict_get d (CStr k))"
  by (simp add: resolve_callee_def dict_get_dict_set module_path_chain)

lemma resolve_callee_other:
  assumes "\<not> is_name base" "\<not> is_attribute base"
  shows "dict_get (resolve_callee (Attribute (foldl Attribute base ns) c) d) (CStr k) =
     (if k = ''function'' then Some (PyStr c) else dict_get d (CStr k))"
proof -
  have "module_path (foldl Attribute base ns) [] = (base, ns)"
    using assms(2) by (simp add: module_path_chain module_path_root)
  then show ?thesis
    using assms(1) by (cases base) (simp_all add: resolve_callee_def dict_get_dict_set)
qed

section \<open>The arguments of a call\<close>

lemma arg_key_inj [simp]: "(arg_key i = arg_key j) = (i = j)"
  using str_nat_inj by (auto simp: arg_key_def)

lemma key_eq_arg_key [simp]: "key_eq (arg_key i) k = (k = arg_key i)"
  by (simp add: arg_key_def)

lemma key_eq_key_of [simp]: "key_eq (key_of a) k = (k = key_of a)"
  by (cases a) (simp_all add: key_of_def)

lemma key_of_inj [simp]: "(key_of a = key_of b) = (a = b)"
  by (cases a; cases b) (simp_all add: key_of_def)












section \<open>The tag \<open>unknown\<close>\<close>




section \<open>The claims\<close>

text \<open>
  C1, as the code has it. When the front end returns a tree (the text is syntactically
  valid) and every argument of every call in it is normalizable, the result is the success
  envelope: \<open>language\<close> is \<open>"python"\<close>, \<open>imports\<close> and \<open>calls\<close> are the lists of
  the two extractors, \<open>source_code\<close> is the text itself, \<open>success\<close> is \<open>True\<close> and
  \<open>error\<close> is \<open>None\<close>. When some call argument is not normalizable, the
  \<open>TypeError\<close> of the normalizer is caught and the result is a failure envelope.
\<close>

theorem success_envelope:
  "(arguments_normalizable tree \<longrightarrow>
      (\<exists>calls. extract_calls tree (split_lines D) = Inr calls
         \<and> parse_python_code (Inr tree) D =
             DictObj
               [(CStr ''language'', PyStr ''python''),
                (CStr ''imports'', ListObj (extract_imports tree)),
                (CStr ''calls'', ListObj calls),
                (CStr ''source_code'', PyStr D),
                (CStr ''success'', PyBool True),
                (CStr ''error'', PyNone)]))
   \<and> (\<not> arguments_normalizable tree \<longrightarrow>
      (\<exists>tname. tname \<in> {''list'', ''dict''}
         \<and> parse_python_code (Inr tree) D =
             DictObj
               [(CStr ''success'', PyBool False),
                (CStr ''error'', DictObj
                   [(CStr ''type'', PyStr ''TypeError''),
                    (CStr ''message'',
                     PyStr (''unhashable type: '' @ [CHR 0x27] @ tname @ [CHR 0x27]))])]))"
proof (intro conjI impI)
  assume "arguments_normalizable tree"
  then obtain calls where "extract_calls tree (split_lines D) = Inr calls"
    using extract_calls_loop_Inr_iff [of "walk tree" "split_lines D" "[]"]
    by (auto simp: arguments_normalizable_def extract_calls_def)
  then show "\<exists>calls. extract_calls tree (split_lines D) = Inr calls
         \<and> parse_python_code (Inr tree) D =
             DictObj
               [(CStr ''language'', PyStr ''python''),
                (CStr ''imports'', ListObj (extract_imports tree)),
                (CStr ''calls'', ListObj calls),
                (CStr ''source_code'', PyStr D),
                (CStr ''success'', PyBool True),
                (CStr ''error'', PyNone)]"
    by (simp add: parse_python_code_def)
next
  assume "\<not> arguments_normalizable tree"
  then obtain e where e: "extract_calls tree (split_lines D) = Inl e"
    using extract_calls_loop_Inr_iff [of "walk tree" "split_lines D" "[]"]
    by (cases "extract_calls tree (split_lines D)")
       (auto simp: arguments_normalizable_def extract_calls_def)
  then have "e = unhashable ''list'' \<or> e = unhashable ''dict''"
    using extract_calls_loop_Inl by (auto simp: extract_calls_def)
  then show "\<exists>tname. tname \<in> {''list'', ''dict''}
         \<and> parse_python_code (Inr tree) D =
             DictObj
               [(CStr ''success'', PyBool False),
                (CStr ''error'', DictObj
                   [(CStr ''type'', PyStr ''TypeError''),
                    (CStr ''message'',
                     PyStr (''unhashable type: '' @ [CHR 0x27] @ tname @ [CHR 0x27]))])]"
    using e by (auto simp: parse_python_code_def unhashable_def)
qed

theorem success_envelope_witness:
  "arguments_normalizable nested_call_tree
   \<and> (\<exists>calls. extract_calls nested_call_tree (split_lines ''f(g(1))'') = Inr calls
         \<and> parse_python_code (Inr nested_call_tree) ''f(g(1))'' =
             DictObj
               [(CStr ''language'', PyStr ''python''),
                (CStr ''imports'', ListObj (extract_imports nested_call_tree)),
                (CStr ''calls'', ListObj calls),
                (CStr ''source_code'', PyStr ''f(g(1))''),
                (CStr ''success'', PyBool True),
                (CStr ''error'', PyNone)])
   \<and> \<not> arguments_normalizable dict_key_tree
   \<and> (\<exists>tname. tname \<in> {''list'', ''dict''}
         \<and> parse_python_code (Inr dict_key_tree) [] =
             DictObj
               [(CStr ''success'', PyBool False),
                (CStr ''error'', DictObj
                   [(CStr ''type'', PyStr ''TypeError''),
                    (CStr ''message'',
                     PyStr (''unhashable type: '' @ [CHR 0x27] @ tname @ [CHR 0x27]))])])"
proof -
  have ok: "arguments_normalizable nested_call_tree"
    by code_simp
  have bad: "\<not> arguments_normalizable dict_key_tree"
    by code_simp
  show ?thesis
    using ok bad success_envelope [of nested_call_tree "''f(g(1))''"]
      success_envelope [of dict_key_tree "[]"]
    by blast
qed

text \<open>
  C1 as stated fails: the text \<open>f({[1]: 2})\<close> is syntactically valid, and its result is
  a failure envelope.
\<close>

theorem valid_input_failure:
  "parse_python_code
     (Inr (Module [Other [Call (Name ''f'')
                            [Dict [Some (List [Constant (CInt 1)])] [Constant (CInt 2)]] [] 1 0]]))
     ''f({[1]: 2})'' =
   DictObj
     [(CStr ''success'', PyBool False),
      (CStr ''error'', DictObj
         [(CStr ''type'', PyStr ''TypeError''),
          (CStr ''message'', PyStr (''unhashable type: '' @ [CHR 0x27] @ ''list'' @ [CHR 0x27]))])]"
  by code_simp





text \<open>
  C4. A boolean literal is classified \<open>"bool"\<close>, with the boolean as payload, and never
  \<open>"number"\<close>, although the numeric test \<open>isinstance(value, (int, float))\<close> accepts it:
  the boolean test comes first.
\<close>

theorem bool_literal_kind:
  "get_value_type (CBool b) = ''bool''
   \<and> isinstance_int_float (CBool b)
   \<and> extract_value (Constant (CBool b)) =
       Inr (DictObj [(CStr ''type'', PyStr ''bool''), (CStr ''value'', PyBool b)])
   \<and> extract_value (NameConstant (CBool b)) =
       Inr (DictObj [(CStr ''type'', PyStr ''bool''), (CStr ''value'', PyBool b)])
   \<and> extract_value (Constant (CBool b)) \<noteq> Inr (typed_value ''number'' v)"
  by (simp add: get_value_type_def isinstance_bool_def isinstance_int_float_def typed_value_def)

text \<open>
  C7. A result whose \<open>success\<close> is not \<open>True\<close> has the two keys \<open>success\<close> (which
  is \<open>False\<close>) and \<open>error\<close> and no other: \<open>imports\<close>, \<open>calls\<close>,
  \<open>source_code\<close> and \<open>language\<close> are missing keys, whatever the front end returned or
  raised.
\<close>

theorem failure_envelope_fields:
  assumes "getitem (parse_python_code parsed D) ''success'' \<noteq> Inr (PyBool True)"
  shows "dict_keys (parse_python_code parsed D) = [CStr ''success'', CStr ''error'']
         \<and> getitem (parse_python_code parsed D) ''success'' = Inr (PyBool False)
         \<and> getitem (parse_python_code parsed D) ''imports'' = Inl (Exception ''KeyError'' ''imports'')
         \<and> getitem (parse_python_code parsed D) ''calls'' = Inl (Exception ''KeyError'' ''calls'')
         \<and> getitem (parse_python_code parsed D) ''source_code'' = Inl (Exception ''KeyError'' ''source_code'')
         \<and> getitem (parse_python_code parsed D) ''language'' = Inl (Exception ''KeyError'' ''language'')"
  using assms parse_python_code_cases [of parsed D] by auto

theorem failure_envelope_fields_witness:
  "getitem (parse_python_code (Inr dict_key_tree) (''import os'' @ [CHR 0x0A] @ ''f({{}: 1})'')) ''success''
     \<noteq> Inr (PyBool True)
   \<and> dict_keys (parse_python_code (Inr dict_key_tree) (''import os'' @ [CHR 0x0A] @ ''f({{}: 1})''))
     = [CStr ''success'', CStr ''error'']
   \<and> getitem (parse_python_code (Inr dict_key_tree) (''import os'' @ [CHR 0x0A] @ ''f({{}: 1})'')) ''imports''
     = Inl (Exception ''KeyError'' ''imports'')"
proof -
  have h: "getitem (parse_python_code (Inr dict_key_tree) (''import os'' @ [CHR 0x0A] @ ''f({{}: 1})'')) ''success''
     \<noteq> Inr (PyBool True)"
    by code_simp
  show ?thesis
    using h failure_envelope_fields [OF h] by blast
qed



text \<open>
  C9. An \<open>ImportFrom\<close> node adds exactly one record: \<open>module\<close> is the module name, or
  the empty string when there is none, \<open>names\<close> are the imported names in order,
  \<open>alias\<close> is the empty string and \<open>lineno\<close> is the line of the statement. The result
  of \<open>extract_imports\<close> is the records of the nodes that \<open>ast.walk\<close> yields, which are
  all the nodes of the tree. For \<open>from pkg.storage import upload, download\<close> it is the
  one record of scenario A.
\<close>

theorem from_import_record:
  "import_step imports (ImportFrom modname names lineno) =
     imports @
     [DictObj
        [(CStr ''module'', PyStr (case modname of None \<Rightarrow> [] | Some m \<Rightarrow> m)),
         (CStr ''names'', ListObj (map (\<lambda>a. PyStr (name a)) names)),
         (CStr ''alias'', PyStr []),
         (CStr ''lineno'', PyInt lineno)]]
   \<and> extract_imports tree = concat (map (import_step []) (walk tree))
   \<and> mset (walk tree) = mset (subnodes tree)
   \<and> extract_imports
        (Module [ImportFrom (Some ''pkg.storage'') [Alias ''upload'' None, Alias ''download'' None] 1]) =
       [DictObj
          [(CStr ''module'', PyStr ''pkg.storage''),
           (CStr ''names'', ListObj [PyStr ''upload'', PyStr ''download'']),
           (CStr ''alias'', PyStr []),
           (CStr ''lineno'', PyInt 1)]]"
proof (intro conjI)
  show "extract_imports tree = concat (map (import_step []) (walk tree))"
    by (simp add: extract_imports_def foldl_import_step)
  show "mset (walk tree) = mset (subnodes tree)"
    by (rule mset_walk)
  show "extract_imports
        (Module [ImportFrom (Some ''pkg.storage'') [Alias ''upload'' None, Alias ''download'' None] 1]) =
       [DictObj
          [(CStr ''module'', PyStr ''pkg.storage''),
           (CStr ''names'', ListObj [PyStr ''upload'', PyStr ''download'']),
           (CStr ''alias'', PyStr []),
           (CStr ''lineno'', PyInt 1)]]"
    by code_simp
qed (simp add: or_empty_def)

text \<open>
  C5. In the record of a call: a callee that is a bare identifier gives that identifier as
  \<open>function\<close> and \<open>None\<close> as \<open>module\<close>. A callee that is an attribute chain ending in
  the name \<open>c\<close> gives \<open>c\<close> as \<open>function\<close>; when the chain starts at a plain identifier
  \<open>a\<close>, \<open>module\<close> is \<open>a\<close> and the names before \<open>c\<close>, joined by dots from the root
  on; when it starts at anything else, \<open>module\<close> stays \<open>None\<close>. The chain
  \<open>a.b.c\<close> is \<open>foldl Attribute (Name a) [b, c]\<close>.
\<close>

theorem callee_resolution:
  assumes "call_record func args kws lineno col_offset source_lines = Inr r"
  shows "(func = Name f \<longrightarrow>
            getitem r ''function'' = Inr (PyStr f) \<and> getitem r ''module'' = Inr PyNone)
       \<and> (func = foldl Attribute (Name a) (ns @ [c]) \<longrightarrow>
            getitem r ''function'' = Inr (PyStr c)
            \<and> getitem r ''module'' = Inr (PyStr (join ''.'' (a # ns))))
       \<and> (func = foldl Attribute base (ns @ [c]) \<and> \<not> is_name base \<and> \<not> is_attribute base \<longrightarrow>
            getitem r ''function'' = Inr (PyStr c) \<and> getitem r ''module'' = Inr PyNone)"
proof -
  let ?init = "[(CStr ''lineno'', PyInt lineno),
                (CStr ''col_offset'', PyInt col_offset),
                (CStr ''function'', PyNone),
                (CStr ''module'', PyNone),
                (CStr ''arguments'', DictObj [])]"
  from call_record_fields [OF assms] obtain info where r: "r = DictObj info"
    and all: "\<forall>k. k \<noteq> ''arguments'' \<and> k \<noteq> ''source_code'' \<longrightarrow>
               dict_get info (CStr k) = dict_get (resolve_callee func ?init) (CStr k)"
    by blast
  have f: "dict_get info (CStr ''function'') = dict_get (resolve_callee func ?init) (CStr ''function'')"
    using all [rule_format, of "''function''"] by simp
  have m: "dict_get info (CStr ''module'') = dict_get (resolve_callee func ?init) (CStr ''module'')"
    using all [rule_format, of "''module''"] by simp
  have bare: "getitem r ''function'' = Inr (PyStr f) \<and> getitem r ''module'' = Inr PyNone"
    if "func = Name f"
    by (simp add: r f m that resolve_callee_bare)
  have named: "getitem r ''function'' = Inr (PyStr c)
            \<and> getitem r ''module'' = Inr (PyStr (join ''.'' (a # ns)))"
    if "func = foldl Attribute (Name a) (ns @ [c])"
  proof -
    have "func = Attribute (foldl Attribute (Name a) ns) c"
      using that by simp
    then show ?thesis
      by (simp add: r f m resolve_callee_named)
  qed
  have other: "getitem r ''function'' = Inr (PyStr c) \<and> getitem r ''module'' = Inr PyNone"
    if "func = foldl Attribute base (ns @ [c])" "\<not> is_name base" "\<not> is_attribute base"
  proof -
    have "func = Attribute (foldl Attribute base ns) c"
      using that(1) by simp
    then show ?thesis
      by (simp add: r f m resolve_callee_other [OF that(2,3)])
  qed
  show ?thesis
    using bare named other by blast
qed

theorem callee_resolution_witness:
  "call_record (Name ''upload'') [] [(Some ''bucket'', Constant (CStr ''b''))] 1 0 [''upload(bucket=b)'']
     = Inr (DictObj
        [(CStr ''lineno'', PyInt 1), (CStr ''col_offset'', PyInt 0),
         (CStr ''function'', PyStr ''upload''), (CStr ''module'', PyNone),
         (CStr ''arguments'', DictObj [(CStr ''bucket'', typed_value ''string'' (PyStr ''b''))]),
         (CStr ''source_code'', PyStr ''upload(bucket=b)'')])
   \<and> extract_calls qualified_call_tree [''pkg.storage.upload(x)'']
     = Inr [DictObj
        [(CStr ''lineno'', PyInt 1), (CStr ''col_offset'', PyInt 0),
         (CStr ''function'', PyStr ''upload''), (CStr ''module'', PyStr ''pkg.storage''),
         (CStr ''arguments'', DictObj [(CStr ''arg_0'', typed_value ''variable'' (PyStr ''x''))]),
         (CStr ''source_code'', PyStr ''pkg.storage.upload(x)'')]]
   \<and> getitem (DictObj
        [(CStr ''lineno'', PyInt 1), (CStr ''col_offset'', PyInt 0),
         (CStr ''function'', PyStr ''upload''), (CStr ''module'', PyNone),
         (CStr ''arguments'', DictObj [(CStr ''bucket'', typed_value ''string'' (PyStr ''b''))]),
         (CStr ''source_code'', PyStr ''upload(bucket=b)'')]) ''module'' = Inr PyNone
   \<and> (\<exists>r. call_record (Attribute (Attribute (Name ''pkg'') ''storage'') ''upload'') [Name ''x''] [] 1 0
              [''pkg.storage.upload(x)''] = Inr r
          \<and> getitem r ''function'' = Inr (PyStr ''upload'')
          \<and> getitem r ''module'' = Inr (PyStr ''pkg.storage''))
   \<and> (\<exists>r. call_record (Attribute (Call (Name ''g'') [] [] 1 0) ''h'') [Constant (CInt 1)] [] 1 0
              [''g().h(1)''] = Inr r
          \<and> getitem r ''function'' = Inr (PyStr ''h'')
          \<and> getitem r ''module'' = Inr PyNone)"
proof -
  let ?r1 = "DictObj
        [(CStr ''lineno'', PyInt 1), (CStr ''col_offset'', PyInt 0),
         (CStr ''function'', PyStr ''upload''), (CStr ''module'', PyNone),
         (CStr ''arguments'', DictObj [(CStr ''bucket'', typed_value ''string'' (PyStr ''b''))]),
         (CStr ''source_code'', PyStr ''upload(bucket=b)'')]"
  have h1: "call_record (Name ''upload'') [] [(Some ''bucket'', Constant (CStr ''b''))] 1 0 [''upload(bucket=b)'']
     = Inr ?r1"
    by code_simp
  have c1: "getitem ?r1 ''module'' = Inr PyNone"
    using callee_resolution [OF h1, of "''upload''"] by simp
  obtain r2 where h2: "call_record (Attribute (Attribute (Name ''pkg'') ''storage'') ''upload'') [Name ''x''] [] 1 0
              [''pkg.storage.upload(x)''] = Inr r2"
    using call_record_Inr_iff
      [of "Attribute (Attribute (Name ''pkg'') ''storage'') ''upload''" "[Name ''x'']" "[]" 1 0
          "[''pkg.storage.upload(x)'']"]
    by auto
  have c2: "getitem r2 ''function'' = Inr (PyStr ''upload'')
          \<and> getitem r2 ''module'' = Inr (PyStr ''pkg.storage'')"
    using callee_resolution [OF h2, of _ "''pkg''" "[''storage'']" "''upload''"] by simp
  obtain r3 where h3: "call_record (Attribute (Call (Name ''g'') [] [] 1 0) ''h'') [Constant (CInt 1)] [] 1 0
              [''g().h(1)''] = Inr r3"
    using call_record_Inr_iff
      [of "Attribute (Call (Name ''g'') [] [] 1 0) ''h''" "[Constant (CInt 1)]" "[]" 1 0 "[''g().h(1)'']"]
    by auto
  have c3: "getitem r3 ''function'' = Inr (PyStr ''h'') \<and> getitem r3 ''module'' = Inr PyNone"
    using callee_resolution [OF h3, of _ _ "[]" "''h''" "Call (Name ''g'') [] [] 1 0"] by simp
  have s: "extract_calls qualified_call_tree [''pkg.storage.upload(x)'']
     = Inr [DictObj
        [(CStr ''lineno'', PyInt 1), (CStr ''col_offset'', PyInt 0),
         (CStr ''function'', PyStr ''upload''), (CStr ''module'', PyStr ''pkg.storage''),
         (CStr ''arguments'', DictObj [(CStr ''arg_0'', typed_value ''variable'' (PyStr ''x''))]),
         (CStr ''source_code'', PyStr ''pkg.storage.upload(x)'')]]"
    by code_simp
  show ?thesis
    using h1 c1 h2 c2 h3 c3 s by blast
qed






end
